theory Spec2Isabelle
  imports Complex_Main "HOL-Library.Log_Nat"
begin

section \<open>m4b2ogg: audiobook container to Ogg audio plus cue sheet\<close>

text \<open>
  A shallow embedding of \<^verbatim>\<open>m4b2ogg.py\<close>. Exceptions are values of \<open>py_error\<close>; a
  computation that may raise returns \<open>py_error + 'a\<close> with \<open>Inl\<close> for the exception.
  Strings are byte strings; the case conversions and the whitespace test cover ASCII.
\<close>

subsection \<open>Exceptions\<close>

datatype py_error =
    KeyError | ValueError | TypeError | IndexError
  | ZeroDivisionError | OverflowError | EngineError

definition bind_res :: "py_error + 'a \<Rightarrow> ('a \<Rightarrow> py_error + 'b) \<Rightarrow> py_error + 'b" where
  "bind_res m f = (case m of Inl e \<Rightarrow> Inl e | Inr v \<Rightarrow> f v)"

subsection \<open>Strings\<close>

definition LF :: char where "LF = CHR 0x0A"
definition CR :: char where "CR = CHR 0x0D"

definition upper_char :: "char \<Rightarrow> char" where
  "upper_char c = (let n = (of_char c :: nat) in
     if 97 \<le> n \<and> n \<le> 122 then char_of (n - 32) else c)"

definition lower_char :: "char \<Rightarrow> char" where
  "lower_char c = (let n = (of_char c :: nat) in
     if 65 \<le> n \<and> n \<le> 90 then char_of (n + 32) else c)"

definition str_upper :: "string \<Rightarrow> string" where
  "str_upper s = map upper_char s"

definition str_lower :: "string \<Rightarrow> string" where
  "str_lower s = map lower_char s"

text \<open>The characters Python's \<^verbatim>\<open>str.isspace\<close> accepts below 128.\<close>

definition is_space :: "char \<Rightarrow> bool" where
  "is_space c = (let n = (of_char c :: nat) in
     (9 \<le> n \<and> n \<le> 13) \<or> (28 \<le> n \<and> n \<le> 32))"

definition str_strip :: "string \<Rightarrow> string" where
  "str_strip s = rev (dropWhile is_space (rev (dropWhile is_space s)))"

fun startswith :: "string \<Rightarrow> string \<Rightarrow> bool" where
  "startswith s [] = True"
| "startswith [] (p # ps) = False"
| "startswith (c # cs) (p # ps) = (if c = p then startswith cs ps else False)"

text \<open>\<^verbatim>\<open>str.rfind\<close> for a single character: the last index, or -1.\<close>

fun rfind :: "char \<Rightarrow> string \<Rightarrow> int" where
  "rfind c [] = -1"
| "rfind c (x # xs) =
     (let r = rfind c xs in if 0 \<le> r then r + 1 else if x = c then 0 else -1)"

text \<open>\<^verbatim>\<open>str.split(sep)\<close> for a single character separator.\<close>

fun str_split :: "char \<Rightarrow> string \<Rightarrow> string list" where
  "str_split sep [] = [[]]"
| "str_split sep (c # cs) =
     (if c = sep then [] # str_split sep cs
      else (case str_split sep cs of [] \<Rightarrow> [[c]] | p # ps \<Rightarrow> (c # p) # ps))"

text \<open>\<^verbatim>\<open>list.index\<close>: the first position, or ValueError.\<close>

fun list_index :: "'a list \<Rightarrow> 'a \<Rightarrow> py_error + nat" where
  "list_index [] v = Inl ValueError"
| "list_index (x # xs) v =
     (if x = v then Inr 0
      else (case list_index xs v of Inl e \<Rightarrow> Inl e | Inr i \<Rightarrow> Inr (Suc i)))"

text \<open>Subscripting a dictionary held as its list of items.\<close>

definition dict_get :: "('k \<times> 'v) list \<Rightarrow> 'k \<Rightarrow> py_error + 'v" where
  "dict_get d k = (case map_of d k of None \<Rightarrow> Inl KeyError | Some v \<Rightarrow> Inr v)"

subsection \<open>Decimal formatting\<close>

definition digit_char :: "nat \<Rightarrow> char" where
  "digit_char d = char_of (48 + d)"

fun digits :: "nat \<Rightarrow> string" where
  "digits n = (if n < 10 then [digit_char n] else digits (n div 10) @ [digit_char (n mod 10)])"

declare digits.simps [simp del]

text \<open>The format specification \<^verbatim>\<open>{:02d}\<close> (and \<^verbatim>\<open>{:02}\<close> on an int): zero padding to a
  minimum width of two, the sign counted in the width.\<close>

definition fmt02 :: "int \<Rightarrow> string" where
  "fmt02 i = (if i < 0 then CHR ''-'' # digits (nat (- i))
     else (let ds = digits (nat i) in if length ds < 2 then CHR ''0'' # ds else ds))"

subsection \<open>Paths\<close>

text \<open>\<^verbatim>\<open>os.path.splitext\<close> and \<^verbatim>\<open>os.path.basename\<close> (POSIX): the extension starts at the
  last dot of the last component, unless only dots precede it there.\<close>

definition splitext :: "string \<Rightarrow> string \<times> string" where
  "splitext p = (let sepIndex = rfind CHR ''/'' p; dotIndex = rfind CHR ''.'' p in
     if sepIndex < dotIndex \<and>
        list_ex (\<lambda>c. c \<noteq> CHR ''.'')
          (take (nat (dotIndex - (sepIndex + 1))) (drop (nat (sepIndex + 1)) p))
     then (take (nat dotIndex) p, drop (nat dotIndex) p)
     else (p, []))"

definition basename :: "string \<Rightarrow> string" where
  "basename p = drop (nat (rfind CHR ''/'' p + 1)) p"

subsection \<open>Container tags: \<^verbatim>\<open>book_info\<close>\<close>

text \<open>
  The prober's answer for one input file. \<open>format_tags\<close> is \<^verbatim>\<open>['format']['tags']\<close>, a
  dictionary in key order, absent when the container carries no tags.
\<close>

type_synonym tags = "(string \<times> string) list"

text \<open>\<^verbatim>\<open>tags[keys[keys_upper.index(K)]]\<close>\<close>

definition tag_by_upper :: "tags \<Rightarrow> string \<Rightarrow> py_error + string" where
  "tag_by_upper tgs K =
     (let keys = map fst tgs; keys_upper = map str_upper keys in
      case list_index keys_upper K of
        Inl e \<Rightarrow> Inl e
      | Inr i \<Rightarrow> dict_get tgs (keys ! i))"

definition book_info :: "tags option \<Rightarrow> string \<Rightarrow> py_error + (string \<times> string)" where
  "book_info format_tags file =
     (case format_tags of
        None \<Rightarrow> Inl KeyError
      | Some tgs \<Rightarrow>
          bind_res
            (case tag_by_upper tgs ''ARTIST'' of
               Inl ValueError \<Rightarrow>
                 (case tag_by_upper tgs ''PERFORMER'' of
                    Inl ValueError \<Rightarrow>
                      (case dict_get tgs ''performer'' of
                         Inl ValueError \<Rightarrow> Inr ''''
                       | r \<Rightarrow> r)
                  | r \<Rightarrow> r)
             | r \<Rightarrow> r)
            (\<lambda>performer.
               bind_res
                 (case tag_by_upper tgs ''ALBUM'' of
                    Inl ValueError \<Rightarrow>
                      (case tag_by_upper tgs ''TITLE'' of
                         Inl ValueError \<Rightarrow> Inr (fst (splitext (basename file)))
                       | r \<Rightarrow> r)
                  | r \<Rightarrow> r)
                 (\<lambda>title. Inr (performer, title))))"

subsection \<open>Floating point\<close>

text \<open>
  Python floats are IEEE binary64 values; the finite ones are rationals. \<open>fl\<close> rounds a
  rational to the nearest binary64 value, ties to even, with the gradual underflow of the
  format. Results too large for the format are reported where Python reports them.
\<close>

text \<open>\<open>ilog2 x\<close> is the binary exponent of a positive \<open>x\<close>: \<open>2 ^ e \<le> x < 2 ^ (e + 1)\<close>.\<close>

definition ilog2 :: "rat \<Rightarrow> int" where
  "ilog2 x = (if 1 \<le> x then int (floorlog 2 (nat \<lfloor>x\<rfloor>)) - 1
              else - int (floorlog 2 (nat (\<lceil>1 / x\<rceil> - 1))))"

definition round_half_even :: "rat \<Rightarrow> int" where
  "round_half_even x = (let f = \<lfloor>x\<rfloor>; d = x - of_int f in
     if d < 1 / 2 then f else if 1 / 2 < d then f + 1 else if even f then f else f + 1)"

definition fl :: "rat \<Rightarrow> rat" where
  "fl x = (if x = 0 then 0 else
     (let e = max (ilog2 \<bar>x\<bar>) (- 1022); u = 2 powi (e - 52)
      in of_int (round_half_even (x / u)) * u))"

text \<open>The exponent of the binade \<^verbatim>\<open>fl\<close> rounds in.\<close>

definition fexp :: "rat \<Rightarrow> int" where
  "fexp x = max (ilog2 \<bar>x\<bar>) (- 1022)"

definition float_overflows :: "rat \<Rightarrow> bool" where
  "float_overflows x = (2 ^ 1024 \<le> \<bar>fl x\<bar>)"

text \<open>\<^verbatim>\<open>float(i)\<close> for an int, as done implicitly when an int meets a float.\<close>

definition float_of_int :: "int \<Rightarrow> py_error + rat" where
  "float_of_int i = (if float_overflows (of_int i) then Inl OverflowError else Inr (fl (of_int i)))"

text \<open>\<^verbatim>\<open>a / b\<close> on two ints: the correctly rounded quotient.\<close>

definition int_truediv :: "int \<Rightarrow> int \<Rightarrow> py_error + rat" where
  "int_truediv a b =
     (if b = 0 then Inl ZeroDivisionError
      else if float_overflows (of_int a / of_int b) then Inl OverflowError
      else Inr (fl (of_int a / of_int b)))"

text \<open>\<^verbatim>\<open>x / y\<close> and \<^verbatim>\<open>x * y\<close> on floats.\<close>

definition float_div :: "rat \<Rightarrow> rat \<Rightarrow> py_error + rat" where
  "float_div x y = (if y = 0 then Inl ZeroDivisionError else Inr (fl (x / y)))"

definition float_mul :: "rat \<Rightarrow> rat \<Rightarrow> rat" where
  "float_mul x y = fl (x * y)"

text \<open>\<^verbatim>\<open>int(x)\<close> on a float truncates towards zero.\<close>

definition trunc_int :: "rat \<Rightarrow> int" where
  "trunc_int x = (if 0 \<le> x then \<lfloor>x\<rfloor> else \<lceil>x\<rceil>)"

text \<open>\<^verbatim>\<open>x % y\<close> on floats: the exact C remainder, moved to the sign of the divisor.\<close>

definition float_mod :: "rat \<Rightarrow> rat \<Rightarrow> py_error + rat" where
  "float_mod x y =
     (if y = 0 then Inl ZeroDivisionError
      else (let m = x - y * of_int (trunc_int (x / y)) in
            if m = 0 then Inr 0
            else if (y < 0) = (m < 0) then Inr m
            else Inr (fl (m + y))))"

subsection \<open>Durations\<close>

text \<open>
  A \<^verbatim>\<open>datetime.timedelta\<close> built from whole seconds and changed by addition only has no
  microseconds: it is its number of seconds, with at most 999999999 days either way.
\<close>

type_synonym timedelta = int

definition timedelta_seconds :: "int \<Rightarrow> py_error + timedelta" where
  "timedelta_seconds n = (if \<bar>n div 86400\<bar> \<le> 999999999 then Inr n else Inl OverflowError)"

definition timedelta_add :: "timedelta \<Rightarrow> timedelta \<Rightarrow> py_error + timedelta" where
  "timedelta_add a b = timedelta_seconds (a + b)"

definition total_seconds :: "timedelta \<Rightarrow> py_error + rat" where
  "total_seconds n = int_truediv (n * 10 ^ 6) (10 ^ 6)"

subsection \<open>The cue timing engine: \<^verbatim>\<open>create_cue_sheet\<close>\<close>

definition DQ :: char where "DQ = CHR 0x22"

text \<open>The three components computed at the top of the loop body.\<close>

definition timestamp :: "timedelta \<Rightarrow> int \<Rightarrow> py_error + (int \<times> int \<times> int)" where
  "timestamp accumulated_time timebase =
     bind_res (total_seconds accumulated_time) (\<lambda>t.
     bind_res (float_of_int (timebase * 60)) (\<lambda>m60.
     bind_res (float_div t m60) (\<lambda>q.
     bind_res (float_mod t m60) (\<lambda>r.
     bind_res (int_truediv (trunc_int r) timebase) (\<lambda>s.
     bind_res (float_mod s 1) (\<lambda>frac.
       Inr (trunc_int q, trunc_int s, trunc_int (float_mul frac 75))))))))"

text \<open>The frames of a track that starts \<open>r\<close> units into its minute.\<close>

definition frames_of :: "int \<Rightarrow> int \<Rightarrow> int" where
  "frames_of r tb = \<lfloor>fl ((fl (of_int r / of_int tb) - of_int (r div tb)) * 75)\<rfloor>"

definition cue_sheet_entry :: "nat \<Rightarrow> string \<Rightarrow> int \<times> int \<times> int \<Rightarrow> string" where
  "cue_sheet_entry track_index name ts =
     (case ts of (minutes, seconds, frames) \<Rightarrow>
        ''  TRACK '' @ fmt02 (int track_index) @ '' AUDIO'' @ [LF] @
        ''    TITLE '' @ [DQ] @ name @ [DQ] @ [LF] @
        ''    INDEX 01 '' @ fmt02 minutes @ '':'' @ fmt02 seconds @ '':'' @ fmt02 frames)"

text \<open>The loop over \<^verbatim>\<open>enumerate(zip(names, track_times, timebases))\<close>, collecting the
  timestamp of every track.\<close>

fun cue_loop :: "timedelta \<Rightarrow> (string \<times> timedelta \<times> int) list \<Rightarrow>
    py_error + (string \<times> (int \<times> int \<times> int)) list" where
  "cue_loop accumulated_time [] = Inr []"
| "cue_loop accumulated_time ((name, track_time, timebase) # rest) =
     bind_res (timestamp accumulated_time timebase) (\<lambda>ts.
     bind_res (timedelta_add accumulated_time track_time) (\<lambda>acc'.
     bind_res (cue_loop acc' rest) (\<lambda>more. Inr ((name, ts) # more))))"

definition cue_tracks :: "string list \<Rightarrow> timedelta list \<Rightarrow> int list \<Rightarrow> timedelta \<Rightarrow>
    py_error + (string \<times> (int \<times> int \<times> int)) list" where
  "cue_tracks names track_times timebases start_time =
     cue_loop start_time (zip names (zip track_times timebases))"

text \<open>The entries the generator yields, in order; an exception anywhere leaves none.\<close>

definition create_cue_sheet :: "string list \<Rightarrow> timedelta list \<Rightarrow> int list \<Rightarrow> timedelta \<Rightarrow>
    py_error + string list" where
  "create_cue_sheet names track_times timebases start_time =
     bind_res (cue_tracks names track_times timebases start_time) (\<lambda>trs.
       Inr (map (\<lambda>(i, name, ts). cue_sheet_entry i name ts) (zip [0..<length trs] trs)))"

subsection \<open>Chapter records\<close>

text \<open>
  A chapter is the dictionary the prober decodes from JSON; every key may be absent.
  \<open>start\<close> and \<open>end\<close> are JSON values, \<open>time_base\<close> is a string such as \<^verbatim>\<open>1/1000\<close>.
\<close>

datatype json = JInt int | JStr string | JNull

record chap =
  ch_tags :: "tags option"
  ch_start :: "json option"
  ch_end :: "json option"
  ch_time_base :: "string option"

definition is_digit :: "char \<Rightarrow> bool" where
  "is_digit c = (let n = (of_char c :: nat) in 48 \<le> n \<and> n \<le> 57)"

definition digit_val :: "char \<Rightarrow> nat" where
  "digit_val c = of_char c - 48"

text \<open>Decimal digits, single underscores allowed between two digits.\<close>

fun parse_digits :: "string \<Rightarrow> nat \<Rightarrow> nat option" where
  "parse_digits [] acc = Some acc"
| "parse_digits [c] acc = (if is_digit c then Some (acc * 10 + digit_val c) else None)"
| "parse_digits (c # d # ds) acc =
     (if is_digit c then parse_digits (d # ds) (acc * 10 + digit_val c)
      else if c = CHR ''_'' \<and> is_digit d then parse_digits (d # ds) acc
      else None)"

text \<open>\<^verbatim>\<open>int(s)\<close> on a string: surrounding whitespace, an optional sign, decimal digits.\<close>

definition int_of_str :: "string \<Rightarrow> py_error + int" where
  "int_of_str s =
     (let t = str_strip s;
          neg = (case t of [] \<Rightarrow> False | c # cs \<Rightarrow> c = CHR ''-'');
          body = (case t of [] \<Rightarrow> [] | c # cs \<Rightarrow> if c = CHR ''-'' \<or> c = CHR ''+'' then cs else t)
      in case body of
           [] \<Rightarrow> Inl ValueError
         | c # cs \<Rightarrow>
             if is_digit c then
               (case parse_digits body 0 of
                  None \<Rightarrow> Inl ValueError
                | Some n \<Rightarrow> Inr (if neg then - int n else int n))
             else Inl ValueError)"

definition py_int :: "json \<Rightarrow> py_error + int" where
  "py_int v = (case v of JInt i \<Rightarrow> Inr i | JStr s \<Rightarrow> int_of_str s | JNull \<Rightarrow> Inl TypeError)"

definition key_get :: "'a option \<Rightarrow> py_error + 'a" where
  "key_get v = (case v of None \<Rightarrow> Inl KeyError | Some x \<Rightarrow> Inr x)"

definition list_get :: "'a list \<Rightarrow> nat \<Rightarrow> py_error + 'a" where
  "list_get xs i = (if i < length xs then Inr (xs ! i) else Inl IndexError)"

subsection \<open>The chapter loop of the main program\<close>

record chap_acc =
  names :: "string list"
  performers :: "string list"
  track_times :: "timedelta list"
  timebases :: "int list"

definition no_chapters :: chap_acc where
  "no_chapters = \<lparr>names = [], performers = [], track_times = [], timebases = []\<rparr>"

definition clamp_timebase :: "int \<Rightarrow> int" where
  "clamp_timebase timebase = (if 10000 < timebase then 1000 else timebase)"

text \<open>\<^verbatim>\<open>int(aChap['time_base'].split('/')[1])\<close>\<close>

definition reported_denominator :: "chap \<Rightarrow> py_error + int" where
  "reported_denominator aChap =
     bind_res (key_get (ch_time_base aChap)) (\<lambda>tb.
     bind_res (list_get (str_split CHR ''/'' tb) 1) int_of_str)"

text \<open>
  The body of the \<^verbatim>\<open>try\<close>: the lists as the statements executed so far have left them,
  and the exception that stopped the body, if any.
\<close>

definition chapter_step :: "string \<Rightarrow> chap_acc \<Rightarrow> chap \<Rightarrow> chap_acc \<times> py_error option" where
  "chapter_step performer st aChap =
     (case bind_res (key_get (ch_tags aChap)) (\<lambda>t. dict_get t ''title'') of
        Inl e \<Rightarrow> (st, Some e)
      | Inr title \<Rightarrow>
          (let st1 = st\<lparr>names := names st @ [title],
                        performers := performers st @ [performer]\<rparr> in
           case bind_res (bind_res (key_get (ch_end aChap)) py_int) (\<lambda>e.
                bind_res (bind_res (key_get (ch_start aChap)) py_int) (\<lambda>s.
                  timedelta_seconds (e - s))) of
             Inl e \<Rightarrow> (st1, Some e)
           | Inr d \<Rightarrow>
               (let st2 = st1\<lparr>track_times := track_times st1 @ [d]\<rparr> in
                case reported_denominator aChap of
                  Inl e \<Rightarrow> (st2, Some e)
                | Inr timebase \<Rightarrow>
                    (st2\<lparr>timebases := timebases st2 @ [clamp_timebase timebase]\<rparr>, None))))"

text \<open>The loop: a ValueError is logged and the loop goes on; any other exception ends
  the program. The second component counts the logged errors.\<close>

fun extract_chapters :: "string \<Rightarrow> chap_acc \<times> nat \<Rightarrow> chap list \<Rightarrow> py_error + (chap_acc \<times> nat)" where
  "extract_chapters performer (st, logged) [] = Inr (st, logged)"
| "extract_chapters performer (st, logged) (aChap # rest) =
     (case chapter_step performer st aChap of
        (st', None) \<Rightarrow> extract_chapters performer (st', logged) rest
      | (st', Some ValueError) \<Rightarrow> extract_chapters performer (st', Suc logged) rest
      | (st', Some e) \<Rightarrow> Inl e)"

subsection \<open>Reading the existing cue file\<close>

text \<open>
  Iterating a file opened in text mode: the lines with their terminators, where
  \<^verbatim>\<open>\r\n\<close> and \<^verbatim>\<open>\r\<close> are read as \<^verbatim>\<open>\n\<close>. The last line may lack a terminator.
\<close>

fun file_lines :: "string \<Rightarrow> string list" where
  "file_lines [] = []"
| "file_lines [c] = (if c = CR \<or> c = LF then [[LF]] else [[c]])"
| "file_lines (c # d # ds) =
     (if c = LF then [LF] # file_lines (d # ds)
      else if c = CR then (if d = LF then [LF] # file_lines ds else [LF] # file_lines (d # ds))
      else (case file_lines (d # ds) of [] \<Rightarrow> [[c]] | l # ls \<Rightarrow> (c # l) # ls))"

text \<open>The scan of the existing file: \<^verbatim>\<open>REPLACE_CUE\<close> and \<^verbatim>\<open>CUE_CONTENTS\<close> on leaving
  the loop.\<close>

fun scan_cue :: "string \<Rightarrow> bool \<times> string \<Rightarrow> string list \<Rightarrow> bool \<times> string" where
  "scan_cue FILE_LINE_OGA (REPLACE_CUE, CUE_CONTENTS) [] = (REPLACE_CUE, CUE_CONTENTS)"
| "scan_cue FILE_LINE_OGA (REPLACE_CUE, CUE_CONTENTS) (line # rest) =
     (if line = FILE_LINE_OGA then (True, CUE_CONTENTS)
      else if startswith line ''FILE '' then scan_cue FILE_LINE_OGA (False, CUE_CONTENTS) rest
      else scan_cue FILE_LINE_OGA (REPLACE_CUE, CUE_CONTENTS @ line) rest)"

subsection \<open>The world and the external engine\<close>

text \<open>
  The file system maps a path to the contents of the regular file there. \<open>transcoded\<close>
  lists the inputs the transcoder has been run on, \<open>logged\<close> counts the errors reported
  through the logger. What the prober and the engine answer for an input file is
  \<open>media\<close>: they are outside this program.
\<close>

record world =
  files :: "string \<rightharpoonup> string"
  transcoded :: "string list"
  logged :: nat

record media =
  format_tags :: "tags option"
  chapters :: "chap list"
  opus_audio :: "string option"
  cover_art :: "string option"

definition isfile :: "world \<Rightarrow> string \<Rightarrow> bool" where
  "isfile w p = (case files w p of None \<Rightarrow> False | Some c \<Rightarrow> True)"

definition write_file :: "string \<Rightarrow> string \<Rightarrow> world \<Rightarrow> world" where
  "write_file p c w = w\<lparr>files := (files w)(p \<mapsto> c)\<rparr>"

definition m4b2opus :: "media \<Rightarrow> string \<Rightarrow> world \<Rightarrow> py_error + (string \<times> world)" where
  "m4b2opus m m4b_file w =
     (let oga_file = fst (splitext m4b_file) @ ''.oga'';
          w1 = w\<lparr>transcoded := transcoded w @ [m4b_file]\<rparr> in
      case opus_audio m of
        None \<Rightarrow> Inl EngineError
      | Some audio \<Rightarrow> Inr (oga_file, write_file oga_file audio w1))"

definition extract_cover_art :: "media \<Rightarrow> string \<Rightarrow> world \<Rightarrow> string option \<times> world" where
  "extract_cover_art m m4b_file w =
     (let cover_art_file = fst (splitext m4b_file) @ ''_cover.jpg'' in
      case cover_art m of
        None \<Rightarrow> (None, w)
      | Some img \<Rightarrow> (Some cover_art_file, write_file cover_art_file img w))"

definition fields_to_check :: "string list" where
  "fields_to_check = [''description'', ''comment'', ''title_more'', ''synopsis'', ''summary'']"

fun first_field :: "tags \<Rightarrow> string list \<Rightarrow> string option" where
  "first_field metadata_lower [] = None"
| "first_field metadata_lower (field # rest) =
     (case map_of metadata_lower field of
        None \<Rightarrow> first_field metadata_lower rest
      | Some v \<Rightarrow> if str_strip v = [] then first_field metadata_lower rest
                  else Some (str_strip v))"

text \<open>The dictionary comprehension keeps the last value of keys that agree in lower case.\<close>

definition extract_description :: "media \<Rightarrow> string option" where
  "extract_description m =
     (case format_tags m of
        None \<Rightarrow> None
      | Some metadata \<Rightarrow>
          first_field (rev (map (\<lambda>(k, v). (str_lower k, v)) metadata)) fields_to_check)"

subsection \<open>The main program, for one input file\<close>

definition file_line_oga :: "string \<Rightarrow> string" where
  "file_line_oga oga_file =
     ''FILE '' @ [DQ] @ basename oga_file @ [DQ] @ '' '' @
       str_upper (drop 1 (snd (splitext oga_file))) @ [LF]"

definition canonical_cue :: "string \<Rightarrow> string" where
  "canonical_cue oga_file = fst (splitext oga_file) @ ''.cue''"

definition side_cue :: "string \<Rightarrow> string" where
  "side_cue oga_file = fst (splitext oga_file) @ ''_oga.cue''"

text \<open>The merge decision: \<^verbatim>\<open>REPLACE_CUE\<close>, \<^verbatim>\<open>CUE_PATH\<close> and \<^verbatim>\<open>CUE_CONTENTS\<close> after the
  block that looks at an existing cue file.\<close>

definition merge_policy :: "world \<Rightarrow> string \<Rightarrow> bool \<times> string \<times> string" where
  "merge_policy w oga_file =
     (case files w (canonical_cue oga_file) of
        None \<Rightarrow> (True, canonical_cue oga_file, [])
      | Some existing \<Rightarrow>
          (case scan_cue (file_line_oga oga_file) (True, []) (file_lines existing) of
             (REPLACE_CUE, CUE_CONTENTS) \<Rightarrow>
               if REPLACE_CUE then (True, canonical_cue oga_file, CUE_CONTENTS)
               else (False, side_cue oga_file, CUE_CONTENTS)))"

text \<open>The body freshly computed from the chapters, and the number of errors logged.\<close>

definition fresh_contents :: "media \<Rightarrow> string \<Rightarrow> py_error + (string \<times> nat)" where
  "fresh_contents m performer =
     bind_res (extract_chapters performer (no_chapters, 0) (chapters m)) (\<lambda>(st, n).
     bind_res (create_cue_sheet (names st) (track_times st) (timebases st) 0) (\<lambda>entries.
       Inr (concat entries, n)))"

definition cue_header :: "string \<Rightarrow> string \<Rightarrow> string \<Rightarrow> string" where
  "cue_header performer title FILE_LINE_OGA =
     ''PERFORMER '' @ [DQ] @ performer @ [DQ] @ [LF] @
     ''TITLE '' @ [DQ] @ title @ [DQ] @ [LF] @ FILE_LINE_OGA"

text \<open>Lines 211 to 231: the audio file, the cover art and the description.\<close>

definition side_assets :: "media \<Rightarrow> string \<Rightarrow> world \<Rightarrow> py_error + (string \<times> world)" where
  "side_assets m name w =
     bind_res (if isfile w (fst (splitext name) @ ''.oga'')
               then Inr (fst (splitext name) @ ''.oga'', w)
               else m4b2opus m name w) (\<lambda>(oga_file, w1).
       (let w2 = snd (extract_cover_art m name w1) in
        Inr (oga_file,
             (case extract_description m of
                None \<Rightarrow> w2
              | Some description \<Rightarrow>
                  write_file (fst (splitext name) @ ''_info.txt'') description w2))))"

text \<open>Lines 234 to 293: the merge decision, the chapters, the cue file.\<close>

definition cue_stage :: "media \<Rightarrow> string \<Rightarrow> string \<Rightarrow> string \<Rightarrow> world \<Rightarrow> py_error + world" where
  "cue_stage m performer title oga_file w =
     (case merge_policy w oga_file of
        (REPLACE_CUE, CUE_PATH, CUE_CONTENTS) \<Rightarrow>
          bind_res (if REPLACE_CUE then fresh_contents m performer
                    else Inr (CUE_CONTENTS, 0)) (\<lambda>(body, n).
            Inr (write_file CUE_PATH
                   (cue_header performer title (file_line_oga oga_file) @ body)
                   (w\<lparr>logged := logged w + n\<rparr>))))"

definition process_file :: "media \<Rightarrow> string \<Rightarrow> world \<Rightarrow> py_error + world" where
  "process_file m name w =
     bind_res (book_info (format_tags m) name) (\<lambda>(performer, title).
     bind_res (side_assets m name w) (\<lambda>(oga_file, w3).
       cue_stage m performer title oga_file w3))"

text \<open>The loop over the command line: one prober answer per input file.\<close>

fun main :: "(string \<times> media) list \<Rightarrow> world \<Rightarrow> py_error + world" where
  "main [] w = Inr w"
| "main ((name, m) # rest) w = bind_res (process_file m name w) (main rest)"

subsection \<open>Order on timestamps\<close>

text \<open>Minutes, then seconds, then frames.\<close>

definition ts_le :: "int \<times> int \<times> int \<Rightarrow> int \<times> int \<times> int \<Rightarrow> bool" where
  "ts_le a b = (case a of (m1, s1, f1) \<Rightarrow> case b of (m2, s2, f2) \<Rightarrow>
     m1 < m2 \<or> (m1 = m2 \<and> (s1 < s2 \<or> (s1 = s2 \<and> f1 \<le> f2))))"

subsection \<open>Inputs used in the examples\<close>

definition a_chapter :: "string \<Rightarrow> json \<Rightarrow> json \<Rightarrow> string \<Rightarrow> chap" where
  "a_chapter title s e tb =
     \<lparr>ch_tags = Some [(''title'', title)], ch_start = Some s, ch_end = Some e,
      ch_time_base = Some tb\<rparr>"

definition a_book :: media where
  "a_book =
     \<lparr>format_tags = Some [(''artist'', ''Ann''), (''album'', ''Bk'')],
      chapters = [a_chapter ''One'' (JInt 0) (JInt 90500) ''1/1000'',
                  a_chapter ''Two'' (JInt 90500) (JInt 100000) ''1/1000''],
      opus_audio = Some ''OPUS'', cover_art = None\<rparr>"

definition empty_world :: world where
  "empty_world = \<lparr>files = Map.empty, transcoded = [], logged = 0\<rparr>"

section \<open>Properties\<close>

subsection \<open>Auxiliary facts\<close>

lemma pow2_less_iff: "(2::rat) powi a < 2 powi b \<longleftrightarrow> a < b"
proof
  assume h: "(2::rat) powi a < 2 powi b"
  show "a < b"
  proof (rule ccontr)
    assume "\<not> a < b"
    then have "b \<le> a" by simp
    then have "(2::rat) powi b \<le> 2 powi a" by (intro power_int_increasing) simp_all
    with h show False by simp
  qed
next
  assume "a < b"
  then show "(2::rat) powi a < 2 powi b" by (intro power_int_strict_increasing) simp_all
qed

lemma pow2_le_iff: "(2::rat) powi a \<le> 2 powi b \<longleftrightarrow> a \<le> b"
  using pow2_less_iff[of b a] by (simp add: not_less[symmetric] del: not_less)

lemma pow2_pos [simp]: "0 < (2::rat) powi a"
  by (simp add: zero_less_power_int)


lemma floorlog2_rat_bounds:
  assumes "0 < n"
  shows "1 \<le> floorlog 2 n" "(2::rat) ^ (floorlog 2 n - 1) \<le> of_nat n"
    "(of_nat n :: rat) + 1 \<le> 2 ^ floorlog 2 n"
proof -
  define k where "k = floorlog 2 n"
  have b: "2 ^ (k - 1) \<le> n" "n < 2 ^ k" using floorlog_bounds[of n 2] assms by (simp_all add: k_def)
  show "1 \<le> floorlog 2 n" using assms by (simp add: floorlog_def)
  have "(of_nat (2 ^ (k - 1)) :: rat) \<le> of_nat n" using b(1) by (simp only: of_nat_le_iff)
  then show "(2::rat) ^ (floorlog 2 n - 1) \<le> of_nat n" by (simp add: k_def)
  have "Suc n \<le> 2 ^ k" using b(2) by simp
  then have "(of_nat (Suc n) :: rat) \<le> of_nat (2 ^ k)" by (simp only: of_nat_le_iff)
  then show "(of_nat n :: rat) + 1 \<le> 2 ^ floorlog 2 n" by (simp add: k_def)
qed

lemma pow2_int_pred: "1 \<le> k \<Longrightarrow> (2::rat) powi (int k - 1) = 2 ^ (k - 1)"
proof -
  assume "1 \<le> k"
  then have "int k - 1 = int (k - 1)" by simp
  then show ?thesis by (simp only: power_int_of_nat)
qed

lemma pow2_neg_nat: "(2::rat) powi (- int k) = 1 / 2 ^ k"
  by (simp add: power_int_minus_divide)

lemma ilog2_lower: assumes "0 < x" shows "2 powi (ilog2 x) \<le> x"
proof (cases "1 \<le> x")
  case True
  define n where "n = nat \<lfloor>x\<rfloor>"
  have n: "0 < n" using True by (simp add: n_def)
  have "(2::rat) powi (int (floorlog 2 n) - 1) \<le> of_nat n"
    using floorlog2_rat_bounds(1,2)[OF n] by (simp add: pow2_int_pred)
  also have "of_nat n \<le> x" using True by (simp add: n_def)
  finally show ?thesis using True by (simp add: ilog2_def n_def)
next
  case False
  define r where "r = 1 / x"
  define n where "n = nat (\<lceil>r\<rceil> - 1)"
  have r: "1 < r" using False assms by (simp add: r_def)
  have n: "0 < n" using r by (simp add: n_def)
  have "r \<le> of_int \<lceil>r\<rceil>" by simp
  also have "of_int \<lceil>r\<rceil> = (of_nat n :: rat) + 1" using n by (simp add: n_def)
  also have "\<dots> \<le> 2 ^ floorlog 2 n" using floorlog2_rat_bounds(3)[OF n] .
  finally have "r \<le> 2 ^ floorlog 2 n" .
  then have "1 / 2 ^ floorlog 2 n \<le> x" using assms by (simp add: r_def field_simps)
  then show ?thesis using False by (simp add: ilog2_def n_def r_def pow2_neg_nat)
qed

lemma ilog2_upper: assumes "0 < x" shows "x < 2 powi (ilog2 x + 1)"
proof (cases "1 \<le> x")
  case True
  define n where "n = nat \<lfloor>x\<rfloor>"
  have n: "0 < n" using True by (simp add: n_def)
  have "x < of_int \<lfloor>x\<rfloor> + 1" by linarith
  also have "of_int \<lfloor>x\<rfloor> = (of_nat n :: rat)" using True by (simp add: n_def)
  also have "of_nat n + 1 \<le> (2::rat) ^ floorlog 2 n" using floorlog2_rat_bounds(3)[OF n] .
  finally have "x < 2 ^ floorlog 2 n" by simp
  then show ?thesis using True by (simp add: ilog2_def n_def)
next
  case False
  define r where "r = 1 / x"
  define n where "n = nat (\<lceil>r\<rceil> - 1)"
  have r: "1 < r" using False assms by (simp add: r_def)
  have n: "0 < n" using r by (simp add: n_def)
  have k: "1 \<le> floorlog 2 n" using floorlog2_rat_bounds(1)[OF n] .
  have "(of_nat n :: rat) = of_int \<lceil>r\<rceil> - 1" using n by (simp add: n_def)
  also have "\<dots> < r" by linarith
  finally have "of_nat n < r" .
  with floorlog2_rat_bounds(2)[OF n] have "2 ^ (floorlog 2 n - 1) < r" by linarith
  then have "x < 1 / 2 ^ (floorlog 2 n - 1)" using assms by (simp add: r_def field_simps)
  moreover have "(2::rat) powi (- int (floorlog 2 n) + 1) = 1 / 2 ^ (floorlog 2 n - 1)"
  proof -
    have "- int (floorlog 2 n) + 1 = - int (floorlog 2 n - 1)" using k by simp
    then show ?thesis by (simp only: pow2_neg_nat)
  qed
  ultimately show ?thesis using False by (simp add: ilog2_def n_def r_def)
qed


lemma ilog2_unique:
  assumes "2 powi e \<le> x" "x < 2 powi (e + 1)"
  shows "ilog2 x = e"
proof -
  have x: "0 < x" using assms(1) pow2_pos[of e] by linarith
  have "(2::rat) powi e < 2 powi (ilog2 x + 1)" using assms ilog2_upper[OF x] by linarith
  then have a: "e < ilog2 x + 1" by (simp only: pow2_less_iff)
  have "(2::rat) powi (ilog2 x) < 2 powi (e + 1)" using assms ilog2_lower[OF x] by linarith
  then have b: "ilog2 x < e + 1" by (simp only: pow2_less_iff)
  from a b show ?thesis by simp
qed

lemma ilog2_mono: assumes "0 < x" "x \<le> y" shows "ilog2 x \<le> ilog2 y"
proof -
  have "(2::rat) powi (ilog2 x) < 2 powi (ilog2 y + 1)"
    using ilog2_lower[OF assms(1)] ilog2_upper[of y] assms by linarith
  then show ?thesis by (simp only: pow2_less_iff)
qed

lemma round_half_even_of_int [simp]: "round_half_even (of_int n) = n"
  by (simp add: round_half_even_def)

lemma round_half_even_mono: "x \<le> y \<Longrightarrow> round_half_even x \<le> round_half_even y"
proof -
  assume xy: "x \<le> y"
  have fx: "\<lfloor>x\<rfloor> \<le> \<lfloor>y\<rfloor>" using xy by (rule floor_mono)
  have bx: "round_half_even x \<le> \<lfloor>x\<rfloor> + 1" by (simp add: round_half_even_def Let_def)
  have by': "\<lfloor>y\<rfloor> \<le> round_half_even y" by (simp add: round_half_even_def Let_def)
  show ?thesis
  proof (cases "\<lfloor>x\<rfloor> < \<lfloor>y\<rfloor>")
    case True
    then show ?thesis using bx by' by linarith
  next
    case False
    then have eq: "\<lfloor>x\<rfloor> = \<lfloor>y\<rfloor>" using fx by simp
    then have "x - of_int \<lfloor>x\<rfloor> \<le> y - of_int \<lfloor>y\<rfloor>" using xy by simp
    then show ?thesis using eq by (simp add: round_half_even_def Let_def)
  qed
qed

lemma pow2_add: "(2::rat) powi (a + b) = 2 powi a * 2 powi b"
  by (simp add: power_int_add)

lemma pow2_diff: "(2::rat) powi (a - b) = 2 powi a / 2 powi b"
  by (simp add: power_int_diff)

lemma pow2_nat: "0 \<le> k \<Longrightarrow> (2::rat) powi k = of_int (2 ^ nat k)"
  by (simp add: power_int_def)

lemma fl_exact:
  assumes m: "\<bar>m\<bar> < 2 ^ 53" and k: "- 1074 \<le> k"
  shows "fl (of_int m * 2 powi k) = of_int m * 2 powi k"
proof (cases "m = 0")
  case True
  then show ?thesis by (simp add: fl_def)
next
  case False
  define x :: rat where "x = of_int m * 2 powi k"
  have x0: "x \<noteq> 0" using False by (simp add: x_def)
  have ax: "\<bar>x\<bar> = of_int \<bar>m\<bar> * 2 powi k" by (simp add: x_def abs_mult)
  have "of_int \<bar>m\<bar> < (of_int (2 ^ 53) :: rat)" using m by (simp only: of_int_less_iff)
  then have "of_int \<bar>m\<bar> < (2::rat) powi 53" by simp
  then have "\<bar>x\<bar> < 2 powi 53 * 2 powi k" unfolding ax by (simp add: mult_strict_right_mono)
  then have "\<bar>x\<bar> < 2 powi (53 + k)" by (simp only: pow2_add)
  moreover have "2 powi (ilog2 \<bar>x\<bar>) \<le> \<bar>x\<bar>" using x0 by (intro ilog2_lower) simp
  ultimately have "(2::rat) powi (ilog2 \<bar>x\<bar>) < 2 powi (53 + k)" by linarith
  then have il: "ilog2 \<bar>x\<bar> < 53 + k" by (simp only: pow2_less_iff)
  define e where "e = max (ilog2 \<bar>x\<bar>) (- 1022)"
  have e: "e - 52 \<le> k" using il k by (simp add: e_def)
  define d where "d = k - (e - 52)"
  have d: "0 \<le> d" using e by (simp add: d_def)
  have "x / 2 powi (e - 52) = of_int m * (2 powi k / 2 powi (e - 52))" by (simp add: x_def)
  also have "2 powi k / 2 powi (e - 52) = (2::rat) powi d" by (simp only: d_def pow2_diff)
  also have "\<dots> = of_int (2 ^ nat d)" using d by (rule pow2_nat)
  finally have q: "x / 2 powi (e - 52) = of_int (m * 2 ^ nat d)" by simp
  have "fl x = of_int (round_half_even (x / 2 powi (e - 52))) * 2 powi (e - 52)"
    using x0 by (simp add: fl_def Let_def e_def)
  also have "\<dots> = (x / 2 powi (e - 52)) * 2 powi (e - 52)"
    by (simp only: q round_half_even_of_int)
  also have "\<dots> = x" by simp
  finally show ?thesis by (simp only: x_def)
qed

lemma fl_of_int: "\<bar>m\<bar> < 2 ^ 53 \<Longrightarrow> fl (of_int m) = of_int m"
  using fl_exact[of m 0] by simp

lemma fl_nonneg: "0 \<le> x \<Longrightarrow> 0 \<le> fl x"
proof -
  assume "0 \<le> x"
  then have "\<And>u. 0 < u \<Longrightarrow> 0 \<le> round_half_even (x / u)"
    using round_half_even_mono[of 0] round_half_even_of_int[of 0] by (metis divide_nonneg_pos of_int_0)
  then show ?thesis by (simp add: fl_def Let_def)
qed

lemma fl_fexp: "x \<noteq> 0 \<Longrightarrow> fl x = of_int (round_half_even (x / 2 powi (fexp x - 52))) * 2 powi (fexp x - 52)"
  by (simp add: fl_def Let_def fexp_def)

lemma pow2_split53: "(2::rat) powi (e + 1) = 2 powi 53 * 2 powi (e - 52)"
proof -
  have "e + 1 = 53 + (e - 52)" by simp
  then show ?thesis by (simp only: pow2_add)
qed

lemma pow2_split52: "(2::rat) powi e = 2 powi 52 * 2 powi (e - 52)"
proof -
  have "e = 52 + (e - 52)" by simp
  then show ?thesis using pow2_add[of 52 "e - 52"] by simp
qed

lemma fl_upper_binade:
  assumes "0 < x"
  shows "fl x \<le> 2 powi (fexp x + 1)"
proof -
  define u :: rat where "u = 2 powi (fexp x - 52)"
  have u: "0 < u" by (simp add: u_def)
  have "x < 2 powi (ilog2 x + 1)" using assms by (rule ilog2_upper)
  also have "\<dots> \<le> 2 powi (fexp x + 1)" using assms by (simp add: pow2_le_iff fexp_def)
  also have "\<dots> = 2 powi 53 * u" by (simp only: u_def pow2_split53)
  finally have "x / u \<le> 2 powi 53" using u by (simp add: field_simps)
  also have "(2::rat) powi 53 = of_int (2 ^ 53)" by simp
  finally have "round_half_even (x / u) \<le> 2 ^ 53"
    using round_half_even_mono[of "x / u" "of_int (2 ^ 53)"] by (simp only: round_half_even_of_int)
  then have "(of_int (round_half_even (x / u)) :: rat) \<le> of_int (2 ^ 53)" by (simp only: of_int_le_iff)
  then have "of_int (round_half_even (x / u)) * u \<le> of_int (2 ^ 53) * u"
    using u by (simp only: mult_le_cancel_right) simp
  also have "of_int (2 ^ 53) * u = 2 powi 53 * u" by simp
  also have "\<dots> = 2 powi (fexp x + 1)" by (simp only: u_def pow2_split53)
  finally show ?thesis using assms by (simp add: fl_fexp u_def)
qed

lemma fl_lower_binade:
  assumes "0 < x" "- 1022 \<le> ilog2 x"
  shows "2 powi (ilog2 x) \<le> fl x"
proof -
  have fe: "fexp x = ilog2 x" using assms by (simp add: fexp_def)
  define u :: rat where "u = 2 powi (fexp x - 52)"
  have u: "0 < u" by (simp add: u_def)
  have p: "2 powi (ilog2 x) = 2 powi 52 * u" unfolding u_def fe by (rule pow2_split52)
  have "2 powi 52 * u \<le> x" using ilog2_lower[OF assms(1)] by (simp only: p)
  then have "2 powi 52 \<le> x / u" using u by (simp add: field_simps)
  moreover have "(2::rat) powi 52 = of_int (2 ^ 52)" by simp
  ultimately have "of_int (2 ^ 52) \<le> x / u" by simp
  then have "2 ^ 52 \<le> round_half_even (x / u)"
    using round_half_even_mono[of "of_int (2 ^ 52)" "x / u"] by (simp only: round_half_even_of_int)
  then have "(of_int (2 ^ 52) :: rat) \<le> of_int (round_half_even (x / u))" by (simp only: of_int_le_iff)
  then have "of_int (2 ^ 52) * u \<le> of_int (round_half_even (x / u)) * u"
    using u by (simp only: mult_le_cancel_right) simp
  moreover have "of_int (2 ^ 52) * u = 2 powi 52 * u" by simp
  ultimately show ?thesis using assms(1) by (simp only: p) (simp add: fl_fexp u_def)
qed

lemma fl_mono_pos:
  assumes "0 < x" "x \<le> y"
  shows "fl x \<le> fl y"
proof -
  have y: "0 < y" using assms by linarith
  have le: "fexp x \<le> fexp y" using ilog2_mono[OF assms] assms by (simp add: fexp_def)
  show ?thesis
  proof (cases "fexp x = fexp y")
    case True
    define u :: rat where "u = 2 powi (fexp y - 52)"
    have u: "0 < u" by (simp add: u_def)
    have "x / u \<le> y / u" using assms u by (simp add: divide_right_mono)
    then have "round_half_even (x / u) \<le> round_half_even (y / u)" by (rule round_half_even_mono)
    then have "(of_int (round_half_even (x / u)) :: rat) \<le> of_int (round_half_even (y / u))"
      by (simp only: of_int_le_iff)
    then have "of_int (round_half_even (x / u)) * u \<le> of_int (round_half_even (y / u)) * u"
      using u by (simp only: mult_le_cancel_right) simp
    then show ?thesis using assms(1) y True by (simp add: fl_fexp u_def)
  next
    case False
    then have lt: "fexp x + 1 \<le> fexp y" using le by simp
    then have iy: "fexp y = ilog2 y" "- 1022 \<le> ilog2 y" using y by (auto simp: fexp_def)
    have "fl x \<le> 2 powi (fexp x + 1)" using assms(1) by (rule fl_upper_binade)
    also have "\<dots> \<le> 2 powi (ilog2 y)" using lt iy by (simp add: pow2_le_iff)
    also have "\<dots> \<le> fl y" using y iy(2) by (rule fl_lower_binade)
    finally show ?thesis .
  qed
qed

lemma fl_mono: "0 \<le> x \<Longrightarrow> x \<le> y \<Longrightarrow> fl x \<le> fl y"
proof (cases "x = 0")
  case True
  assume "0 \<le> x" "x \<le> y"
  then show ?thesis using True fl_nonneg[of y] by (simp add: fl_def)
next
  case False
  assume "0 \<le> x" "x \<le> y"
  then show ?thesis using False fl_mono_pos[of x y] by simp
qed

lemma fl_div_bounds:
  assumes a: "0 \<le> a" and b: "0 < b" and ab: "a + b < 2 ^ 52"
  shows "of_int (a div b) \<le> fl (of_int a / of_int b)"
    and "fl (of_int a / of_int b) < of_int (a div b) + 1"
proof -
  define k where "k = a div b"
  define x :: rat where "x = of_int a / of_int b"
  have k0: "0 \<le> k" using a b by (simp add: k_def pos_imp_zdiv_nonneg_iff)
  define r where "r = a mod b"
  have eq: "a = k * b + r" by (simp add: k_def r_def)
  have r: "0 \<le> r" "r < b" using b by (simp_all add: r_def)
  have kb: "k * b \<le> a" using eq r by linarith
  have ka: "a < k * b + b" using eq r by linarith
  have kle: "k \<le> a"
  proof -
    have "k * 1 \<le> k * b" using k0 b by (intro mult_left_mono) simp_all
    then show ?thesis using kb by simp
  qed
  have x0: "0 \<le> x" using a b by (simp add: x_def)
  have "of_int k = of_int \<lfloor>x\<rfloor>" by (simp add: x_def k_def floor_divide_of_int_eq)
  also have "\<dots> \<le> x" by simp
  finally have kx: "of_int k \<le> x" .
  have "fl (of_int k) = of_int k" using k0 kle a ab b by (intro fl_of_int) simp
  moreover have "fl (of_int k) \<le> fl x" using kx k0 by (intro fl_mono) simp_all
  ultimately show "of_int (a div b) \<le> fl (of_int a / of_int b)" by (simp add: k_def x_def)
  define j where "j = floorlog 2 (nat b)"
  have nb: "0 < nat b" using b by simp
  have j1: "1 \<le> j" unfolding j_def using floorlog2_rat_bounds(1)[OF nb] .
  have "(2::rat) ^ (j - 1) \<le> of_nat (nat b)" unfolding j_def using floorlog2_rat_bounds(2)[OF nb] .
  then have "(of_int (2 ^ (j - 1)) :: rat) \<le> of_int b" using b by simp
  then have jl: "2 ^ (j - 1) \<le> b" by (simp only: of_int_le_iff)
  have "(of_nat (nat b) :: rat) + 1 \<le> 2 ^ j" unfolding j_def using floorlog2_rat_bounds(3)[OF nb] .
  then have "(of_int (b + 1) :: rat) \<le> of_int (2 ^ j)" using b by simp
  then have ju: "b + 1 \<le> 2 ^ j" by (simp only: of_int_le_iff)
  have p2: "(2::int) ^ j = 2 * 2 ^ (j - 1)" using j1 by (cases j) simp_all
  have "(2::int) ^ (j - 1) < 2 ^ 52" using jl ab a by linarith
  then have "j - 1 < 52" by (simp only: power_strict_increasing_iff) 
  then have j53: "j \<le> 52" by simp
  define M where "M = (k + 1) * 2 ^ j - 1"
  have "(k + 1) * 2 ^ j = 2 * ((k + 1) * 2 ^ (j - 1))" by (simp add: p2)
  also have "(k + 1) * 2 ^ (j - 1) \<le> (k + 1) * b" using jl k0 by (intro mult_left_mono) simp_all
  also have "(k + 1) * b = k * b + b" by (simp add: algebra_simps)
  also have "\<dots> \<le> a + b" using kb by simp
  finally have "(k + 1) * 2 ^ j \<le> 2 * (a + b)" by simp
  then have Mu: "M < 2 ^ 53" using ab by (simp add: M_def)
  have "1 * 1 \<le> (k + 1) * (2::int) ^ j" using k0 by (intro mult_mono) simp_all
  then have M0: "0 \<le> M" by (simp add: M_def)
  define y :: rat where "y = of_int M * 2 powi (- int j)"
  have yv: "y = of_int k + 1 - 1 / 2 ^ j" by (simp add: y_def M_def pow2_neg_nat field_simps)
  have fy: "fl y = y" unfolding y_def using M0 Mu j53 by (intro fl_exact) simp_all
  have "a + 1 \<le> k * b + b" using ka by simp
  then have "(of_int (a + 1) :: rat) \<le> of_int (k * b + b)" by (simp only: of_int_le_iff)
  then have "of_int a \<le> (of_int k + 1) * of_int b - (1::rat)" by (simp add: algebra_simps)
  then have x1: "x \<le> of_int k + 1 - 1 / of_int b" using b by (simp add: x_def field_simps)
  have x2: "1 / (2::rat) ^ j \<le> 1 / of_int b"
  proof -
    have "(of_int b :: rat) \<le> of_int (2 ^ j)" using ju by (simp only: of_int_le_iff)
    then show ?thesis using b by (simp add: field_simps)
  qed
  have xy: "x \<le> y" using x1 x2 by (simp add: yv)
  have "fl x \<le> fl y" using x0 xy by (rule fl_mono)
  also have "fl y = y" by (rule fy)
  also have "y < of_int k + 1" by (simp add: yv)
  finally show "fl (of_int a / of_int b) < of_int (a div b) + 1" by (simp add: x_def k_def)
qed

lemma fl_div_floor:
  assumes "0 \<le> a" "0 < b" "a + b < 2 ^ 52"
  shows "\<lfloor>fl (of_int a / of_int b)\<rfloor> = a div b"
  using fl_div_bounds[OF assms] by (intro floor_unique) simp_all

lemma no_overflow_small: "0 \<le> x \<Longrightarrow> x < 2 ^ 53 \<Longrightarrow> \<not> float_overflows x"
proof -
  assume x: "0 \<le> x" "x < 2 ^ 53"
  have "fl x \<le> fl (of_int (2 ^ 52) * 2 powi 1)" using x by (intro fl_mono) simp_all
  also have "\<dots> = of_int (2 ^ 52) * 2 powi 1" by (intro fl_exact) simp_all
  also have "\<dots> < 2 ^ 1024" by simp
  finally show ?thesis using fl_nonneg[OF x(1)] by (simp add: float_overflows_def)
qed

lemma total_seconds_exact:
  assumes "0 \<le> n" "n < 2 ^ 52"
  shows "total_seconds n = Inr (of_int n)"
proof -
  have e: "(of_int (n * 10 ^ 6) :: rat) / of_int (10 ^ 6) = of_int n" by simp
  have "\<not> float_overflows (of_int n)" using assms by (intro no_overflow_small) simp_all
  moreover have "fl (of_int n) = of_int n" using assms by (intro fl_of_int) simp
  ultimately show ?thesis unfolding total_seconds_def int_truediv_def e by simp
qed

lemma float_of_int_exact:
  assumes "0 \<le> n" "n < 2 ^ 52"
  shows "float_of_int n = Inr (of_int n)"
proof -
  have "\<not> float_overflows (of_int n)" using assms by (intro no_overflow_small) simp_all
  moreover have "fl (of_int n) = of_int n" using assms by (intro fl_of_int) simp
  ultimately show ?thesis unfolding float_of_int_def by simp
qed

lemma float_div_ints:
  assumes "0 \<le> a" "0 < b" "a + b < 2 ^ 52"
  shows "\<exists>q. float_div (of_int a) (of_int b) = Inr q \<and> trunc_int q = a div b"
proof -
  have "0 \<le> fl (of_int a / of_int b)" using assms by (intro fl_nonneg) simp
  then show ?thesis using assms fl_div_floor[OF assms] by (simp add: float_div_def trunc_int_def)
qed

lemma float_mod_ints:
  assumes "0 \<le> a" "0 < b"
  shows "float_mod (of_int a) (of_int b) = Inr (of_int (a mod b))"
proof -
  have q: "0 \<le> (of_int a :: rat) / of_int b" using assms by simp
  have t: "trunc_int (of_int a / of_int b) = a div b"
    using q by (simp add: trunc_int_def floor_divide_of_int_eq)
  have m: "(of_int a :: rat) - of_int b * of_int (a div b) = of_int (a mod b)"
    by (simp add: minus_mult_div_eq_mod[symmetric] del: minus_mult_div_eq_mod)
  have "0 \<le> a mod b" using assms by simp
  then have "\<not> (of_int (a mod b) :: rat) < 0" by simp
  then show ?thesis using assms unfolding float_mod_def t m Let_def by simp
qed

lemma int_div_le_self:
  assumes "0 \<le> a" "0 < b"
  shows "a div b \<le> (a::int)"
proof -
  define k where "k = a div b"
  define r where "r = a mod b"
  have eq: "a = k * b + r" by (simp add: k_def r_def)
  have r: "0 \<le> r" using assms by (simp add: r_def)
  have k0: "0 \<le> k" using assms by (simp add: k_def pos_imp_zdiv_nonneg_iff)
  have "k * 1 \<le> k * b" using k0 assms by (intro mult_left_mono) simp_all
  then have "k \<le> a" using eq r by linarith
  then show ?thesis by (simp only: k_def)
qed

lemma int_truediv_ints:
  assumes "0 \<le> a" "0 < b" "a + b < 2 ^ 52"
  shows "int_truediv a b = Inr (fl (of_int a / of_int b))"
proof -
  have x: "0 \<le> (of_int a :: rat) / of_int b" using assms by simp
  have "fl (of_int a / of_int b) < of_int (a div b) + 1" using assms by (rule fl_div_bounds(2))
  also have "a div b \<le> a" using assms(1,2) by (rule int_div_le_self)
  then have "(of_int (a div b) :: rat) + 1 \<le> of_int a + 1" by simp
  also have "(of_int a :: rat) + 1 < 2 ^ 1024"
  proof -
    have "a + 1 < 2 ^ 52" using assms by simp
    then have "(of_int (a + 1) :: rat) < of_int (2 ^ 52)" by (simp only: of_int_less_iff)
    then show ?thesis by simp
  qed
  finally have "\<not> float_overflows (of_int a / of_int b)"
    using fl_nonneg[OF x] by (simp add: float_overflows_def)
  then show ?thesis using assms by (simp add: int_truediv_def)
qed

lemma float_mod_one:
  assumes "0 \<le> s"
  shows "float_mod s 1 = Inr (s - of_int \<lfloor>s\<rfloor>)"
proof -
  have "of_int \<lfloor>s\<rfloor> \<le> s" by simp
  then have "\<not> s < of_int \<lfloor>s\<rfloor>" by (simp only: not_less)
  then show ?thesis using assms by (simp add: float_mod_def trunc_int_def Let_def)
qed

lemma timestamp_closed:
  assumes n: "0 \<le> n" and tb: "0 < tb" and small: "n + tb * 60 < 2 ^ 52"
  shows "timestamp n tb = Inr (n div (tb * 60), (n mod (tb * 60)) div tb, frames_of (n mod (tb * 60)) tb)"
proof -
  define m where "m = tb * 60"
  define r where "r = n mod m"
  have m: "0 < m" using tb by (simp add: m_def)
  have r: "0 \<le> r" "r < m" using m by (simp_all add: r_def)
  have nm: "n < 2 ^ 52" "m < 2 ^ 52" using small n m by (simp_all add: m_def)
  have "r \<le> n" unfolding r_def using n m by (simp add: zmod_le_nonneg_dividend)
  then have rt: "r + tb < 2 ^ 52" using small tb by simp
  have 1: "total_seconds n = Inr (of_int n)" using n nm by (intro total_seconds_exact)
  have 2: "float_of_int m = Inr (of_int m)" using m nm by (intro float_of_int_exact) simp_all
  obtain q where 3: "float_div (of_int n) (of_int m) = Inr q" "trunc_int q = n div m"
    using float_div_ints[of n m] n m small by (auto simp: m_def)
  have 4: "float_mod (of_int n) (of_int m) = Inr (of_int r)"
    unfolding r_def using n m by (rule float_mod_ints)
  have t4: "trunc_int (of_int r :: rat) = r" using r by (simp add: trunc_int_def)
  define s where "s = fl (of_int r / of_int tb)"
  have 5: "int_truediv r tb = Inr s" unfolding s_def using r(1) tb rt by (rule int_truediv_ints)
  have s0: "0 \<le> s" unfolding s_def using r tb by (intro fl_nonneg) simp
  have fs: "\<lfloor>s\<rfloor> = r div tb" unfolding s_def using r(1) tb rt by (rule fl_div_floor)
  have 6: "float_mod s 1 = Inr (s - of_int (r div tb))" using float_mod_one[OF s0] by (simp only: fs)
  have ts: "trunc_int s = r div tb" using s0 fs by (simp add: trunc_int_def)
  have f0: "0 \<le> (s - of_int (r div tb)) * 75" using fs by (simp only: fs[symmetric]) simp
  have 7: "trunc_int (float_mul (s - of_int (r div tb)) 75) = frames_of r tb"
    using fl_nonneg[OF f0] by (simp add: float_mul_def trunc_int_def frames_of_def s_def)
  show ?thesis
    unfolding timestamp_def m_def[symmetric] 1 2 bind_res_def sum.case 3 4 t4 5 6 7 ts r_def[symmetric]
    by simp
qed

lemma fl_zero [simp]: "fl 0 = 0"
  by (simp add: fl_def)

lemma fl_dyadic:
  assumes "\<bar>m\<bar> < 2 ^ 53" "k \<le> 1074"
  shows "fl (of_int m / 2 ^ k) = of_int m / 2 ^ k"
proof -
  have "fl (of_int m * 2 powi (- int k)) = of_int m * 2 powi (- int k)"
    using assms by (intro fl_exact) simp_all
  then show ?thesis by (simp add: pow2_neg_nat)
qed

lemma frames_of_whole: "0 < tb \<Longrightarrow> frames_of 0 tb = 0"
  by (simp add: frames_of_def)

lemma frames_of_30500: "frames_of 30500 1000 = 37"
proof -
  have a: "fl (61 / 2) = 61 / 2" using fl_dyadic[of 61 1] by simp
  have b: "fl (75 / 2) = 75 / 2" using fl_dyadic[of 75 1] by simp
  have c: "\<lfloor>(75::rat) / 2\<rfloor> = 37" by (rule floor_unique) simp_all
  show ?thesis by (simp add: frames_of_def a b c)
qed

lemma timestamp_0_1000: "timestamp 0 1000 = Inr (0, 0, 0)"
  using timestamp_closed[of 0 1000] by (simp add: frames_of_whole)

lemma timestamp_90500_1000: "timestamp 90500 1000 = Inr (1, 30, 37)"
  using timestamp_closed[of 90500 1000] by (simp add: frames_of_30500)

lemma timedelta_seconds_small:
  assumes "0 \<le> n" "n < 86400000000000"
  shows "timedelta_seconds n = Inr n"
proof -
  have a: "0 \<le> n div 86400" using assms(1) by (simp add: pos_imp_zdiv_nonneg_iff)
  have "n \<le> 86399999999999" using assms(2) by simp
  then have "n div 86400 \<le> 86399999999999 div 86400" by (intro zdiv_mono1) simp_all
  also have "(86399999999999::int) div 86400 = 999999999" by simp
  finally show ?thesis using a by (simp add: timedelta_seconds_def)
qed

lemma timedelta_seconds_range:
  assumes "timedelta_seconds n = Inr d" "0 \<le> n"
  shows "d = n" "n < 86400000000000"
proof -
  have e: "\<bar>n div 86400\<bar> \<le> 999999999" "d = n"
    using assms(1) by (auto simp: timedelta_seconds_def split: if_splits)
  show "d = n" by (rule e(2))
  show "n < 86400000000000"
  proof (rule ccontr)
    assume "\<not> n < 86400000000000"
    then have "86400000000000 \<le> n" by simp
    then have "86400000000000 div 86400 \<le> n div 86400" by (intro zdiv_mono1) simp_all
    moreover have "(86400000000000::int) div 86400 = 1000000000" by simp
    ultimately show False using e(1) by simp
  qed
qed

lemma denominator_1000:
  "reported_denominator (a_chapter n ss ee ''1/1000'') = Inr 1000"
  unfolding reported_denominator_def a_chapter_def by code_simp

lemma bind_res_Inr [simp]: "bind_res (Inr v) f = f v"
  by (simp add: bind_res_def)

lemma bind_res_Inl [simp]: "bind_res (Inl e) f = Inl e"
  by (simp add: bind_res_def)

lemma chapter_step_complete:
  assumes "bind_res (key_get (ch_tags c)) (\<lambda>t. dict_get t ''title'') = Inr title"
    and "bind_res (key_get (ch_end c)) py_int = Inr e"
    and "bind_res (key_get (ch_start c)) py_int = Inr s"
    and "timedelta_seconds (e - s) = Inr d"
    and "reported_denominator c = Inr tb"
  shows "chapter_step p st c =
    (\<lparr>names = names st @ [title], performers = performers st @ [p],
      track_times = track_times st @ [d], timebases = timebases st @ [clamp_timebase tb]\<rparr>, None)"
  unfolding chapter_step_def assms(1) assms(5) Let_def
  by (simp add: assms(2) assms(3) assms(4))

lemma a_chapter_fields:
  "bind_res (key_get (ch_tags (a_chapter n s e tb))) (\<lambda>t. dict_get t ''title'') = Inr n"
  "bind_res (key_get (ch_end (a_chapter n s (JInt j) tb))) py_int = Inr j"
  "bind_res (key_get (ch_start (a_chapter n (JInt i) e tb))) py_int = Inr i"
  by (simp_all add: a_chapter_def key_get_def dict_get_def py_int_def)

lemma a_chapter_step:
  assumes "0 \<le> j - i" "j - i < 86400000000000"
  shows "chapter_step p st (a_chapter n (JInt i) (JInt j) ''1/1000'') =
    (\<lparr>names = names st @ [n], performers = performers st @ [p],
      track_times = track_times st @ [j - i], timebases = timebases st @ [1000]\<rparr>, None)"
proof -
  have d: "timedelta_seconds (j - i) = Inr (j - i)" using assms by (rule timedelta_seconds_small)
  show ?thesis
    by (rule trans[OF chapter_step_complete[OF a_chapter_fields(1) a_chapter_fields(2)
            a_chapter_fields(3) d denominator_1000]])
      (simp add: clamp_timebase_def)
qed

lemma timedelta_add_small:
  "0 \<le> a + b \<Longrightarrow> a + b < 86400000000000 \<Longrightarrow> timedelta_add a b = Inr (a + b)"
  by (simp add: timedelta_add_def timedelta_seconds_small)

subsection \<open>Tag fallbacks\<close>

text \<open>
  Claim C4. The claim: for every tag mapping \<^verbatim>\<open>book_info\<close> returns, the performer
  falling back to the empty string. On tags with a title and no artist or performer key
  the lookup of the literal key \<^verbatim>\<open>performer\<close> raises KeyError, which the handler for
  ValueError does not catch: \<^verbatim>\<open>book_info\<close> raises.
\<close>

theorem book_info_without_performer_raises:
  "book_info (Some [(''title'', ''Book'')]) ''book.m4b'' = Inl KeyError"
  by (simp add: book_info_def tag_by_upper_def dict_get_def str_upper_def upper_char_def
      bind_res_def)

subsection \<open>Evaluating the timing engine\<close>

text \<open>
  Claim C6. With time base 1000 and a first chapter from 0 to 90500, the chapter loop
  records the duration 90500 and the second track is stamped minutes 1, seconds 30,
  frames 37.
\<close>

theorem second_track_after_90500:
  "timestamp 90500 1000 = Inr (1, 30, 37) \<and>
   extract_chapters p (no_chapters, 0)
       [a_chapter n1 (JInt 0) (JInt 90500) ''1/1000'',
        a_chapter n2 (JInt 90500) (JInt 100000) ''1/1000'']
     = Inr (\<lparr>names = [n1, n2], performers = [p, p], track_times = [90500, 9500],
             timebases = [1000, 1000]\<rparr>, 0) \<and>
   cue_tracks [n1, n2] [90500, 9500] [1000, 1000] 0
     = Inr [(n1, (0, 0, 0)), (n2, (1, 30, 37))]"
proof (intro conjI)
  show "timestamp 90500 1000 = Inr (1, 30, 37)" by (rule timestamp_90500_1000)
  show "extract_chapters p (no_chapters, 0)
       [a_chapter n1 (JInt 0) (JInt 90500) ''1/1000'',
        a_chapter n2 (JInt 90500) (JInt 100000) ''1/1000'']
     = Inr (\<lparr>names = [n1, n2], performers = [p, p], track_times = [90500, 9500],
             timebases = [1000, 1000]\<rparr>, 0)"
    by (simp add: a_chapter_step no_chapters_def)
  show "cue_tracks [n1, n2] [90500, 9500] [1000, 1000] 0
     = Inr [(n1, (0, 0, 0)), (n2, (1, 30, 37))]"
    by (simp add: cue_tracks_def timestamp_0_1000 timestamp_90500_1000 timedelta_add_small)
qed

end
